theory Spec2Isabelle
  imports Main "HOL-Library.Sublist" "HOL-Library.Char_ord" "HOL-Library.List_Lexorder"
    "HOL-Library.Product_Lexorder"
begin

section \<open>Strings\<close>

text \<open>
  Python strings are modelled as \<^typ>\<open>string\<close> restricted to ASCII: the case mappings
  below change the 26 Latin letters only and the whitespace class is the ASCII part of
  what \<^verbatim>\<open>str.isspace\<close> and the pattern \<^verbatim>\<open>\s\<close> accept
  (tab, line feed, vertical tab, form feed, carriage return, the four separators
  0x1C to 0x1F, and space).
\<close>

definition lowers :: string where
  "lowers = ''abcdefghijklmnopqrstuvwxyz''"

definition uppers :: string where
  "uppers = ''ABCDEFGHIJKLMNOPQRSTUVWXYZ''"

definition to_upper :: "char \<Rightarrow> char" where
  "to_upper c = (case map_of (zip lowers uppers) c of Some u \<Rightarrow> u | None \<Rightarrow> c)"

definition to_lower :: "char \<Rightarrow> char" where
  "to_lower c = (case map_of (zip uppers lowers) c of Some l \<Rightarrow> l | None \<Rightarrow> c)"

definition upper :: "string \<Rightarrow> string" where
  "upper s = map to_upper s"

definition lower :: "string \<Rightarrow> string" where
  "lower s = map to_lower s"

definition is_space :: "char \<Rightarrow> bool" where
  "is_space c \<longleftrightarrow>
     c \<in> set [CHR 0x09, CHR 0x0A, CHR 0x0B, CHR 0x0C, CHR 0x0D,
               CHR 0x1C, CHR 0x1D, CHR 0x1E, CHR 0x1F, CHR 0x20]"

text \<open>\<^verbatim>\<open>s.strip()\<close>\<close>

definition strip :: "string \<Rightarrow> string" where
  "strip s = rev (dropWhile is_space (rev (dropWhile is_space s)))"

text \<open>\<^verbatim>\<open>re.sub(r"\s+", " ", t)\<close>: every maximal run of whitespace becomes one space.
  The flag says whether the previous character belonged to a run.\<close>

fun collapse_from :: "bool \<Rightarrow> string \<Rightarrow> string" where
  "collapse_from in_run [] = []"
| "collapse_from in_run (c # cs) =
     (if is_space c
      then (if in_run then collapse_from True cs else CHR '' '' # collapse_from True cs)
      else c # collapse_from False cs)"

definition collapse_ws :: "string \<Rightarrow> string" where
  "collapse_ws t = collapse_from False t"

text \<open>\<^verbatim>\<open>key in t\<close> on strings: \<open>key\<close> occurs in \<open>t\<close> as a contiguous block.\<close>

fun contains :: "string \<Rightarrow> string \<Rightarrow> bool" where
  "contains key [] = (key = [])"
| "contains key (c # cs) = (prefix key (c # cs) \<or> contains key cs)"

section \<open>Ticker cleaning\<close>

text \<open>
  \<^verbatim>\<open>df["ticker"].astype(str).str.upper().str.replace(r"[^A-Z.]", "", regex=True)\<close>
  (the same expression in \<^verbatim>\<open>_extract_from_html\<close> and in
  \<^verbatim>\<open>load_public_fallback\<close>), on one string.
\<close>

definition ticker_char :: "char \<Rightarrow> bool" where
  "ticker_char c \<longleftrightarrow> c \<in> set uppers \<or> c = CHR ''.''"

definition clean_ticker :: "string \<Rightarrow> string" where
  "clean_ticker s = filter ticker_char (upper s)"

section \<open>The canonical dataset\<close>

text \<open>
  One value of an object column of a data frame: a Python string, \<^verbatim>\<open>None\<close>, or the
  float \<^verbatim>\<open>NaN\<close> that pandas puts where a row has no value for a column.
\<close>

datatype cell = Str string | NoneV | NaN

text \<open>
  One row of the data frame that \<^verbatim>\<open>_extract_from_html\<close> and
  \<^verbatim>\<open>load_public_fallback\<close> return. Timestamps are integers (a count of time
  units); \<^verbatim>\<open>NaT\<close> is \<open>None\<close>. The \<open>name\<close> column holds a cell because
  \<^verbatim>\<open>group_daily\<close> tests \<^verbatim>\<open>isinstance(x, str)\<close> on it. The field \<open>extra\<close> holds
  the values of the columns beyond the eight canonical ones (the fallback data has some;
  the scraped frame has none).
\<close>

record trade =
  ticker :: string
  name :: cell
  company :: string
  type :: string
  filing_date :: "int option"
  transaction_date :: "int option"
  is_buy :: bool
  is_sell :: bool
  extra :: "cell list"

section \<open>Aggregation\<close>

text \<open>\<^verbatim>\<open>df[df["filing_date"] >= since]\<close>: a comparison with \<^verbatim>\<open>NaT\<close> is false.\<close>

definition filed_since :: "int \<Rightarrow> trade \<Rightarrow> bool" where
  "filed_since since r = (case filing_date r of None \<Rightarrow> False | Some t \<Rightarrow> since \<le> t)"

text \<open>
  The three filtering lines shared by \<^verbatim>\<open>group_daily\<close> and \<^verbatim>\<open>trend_30d\<close>.
  A list that is \<^verbatim>\<open>None\<close> or empty is falsy, so it filters nothing: both are
  the empty list here.
\<close>

definition window :: "trade list \<Rightarrow> int \<Rightarrow> string list \<Rightarrow> string list \<Rightarrow> trade list" where
  "window df since whitelist blacklist =
     (let d = filter (filed_since since) df;
          d = (if whitelist \<noteq> [] then filter (\<lambda>r. ticker r \<in> set whitelist) d else d);
          d = (if blacklist \<noteq> [] then filter (\<lambda>r. ticker r \<notin> set blacklist) d else d)
      in d)"

text \<open>
  \<^verbatim>\<open>d.groupby("ticker")\<close>: the distinct keys in ascending order, each with its rows
  in their original order.
\<close>

definition groupby_ticker :: "trade list \<Rightarrow> (string \<times> trade list) list" where
  "groupby_ticker d =
     map (\<lambda>k. (k, filter (\<lambda>r. ticker r = k) d)) (sort (remdups (map ticker d)))"

text \<open>\<^verbatim>\<open>[x for x in s if isinstance(x, str)]\<close>\<close>

fun str_values :: "cell list \<Rightarrow> string list" where
  "str_values [] = []"
| "str_values (Str s # cs) = s # str_values cs"
| "str_values (_ # cs) = str_values cs"

text \<open>\<^verbatim>\<open>lambda s: sorted(set([x for x in s if isinstance(x, str)]))\<close>\<close>

definition politicians_of :: "trade list \<Rightarrow> string list" where
  "politicians_of g = sort (remdups (str_values (map name g)))"

text \<open>The aggregation \<^verbatim>\<open>"sum"\<close> of a boolean column.\<close>

definition sum_bool :: "bool list \<Rightarrow> nat" where
  "sum_bool bs = sum_list (map (\<lambda>b. if b then 1 else 0) bs)"

record daily_row =
  g_ticker :: string
  trades :: nat
  politicians :: "string list"
  buys :: nat
  sells :: nat
  people :: nat

definition daily_agg :: "string \<times> trade list \<Rightarrow> daily_row" where
  "daily_agg kg =
     (let g = snd kg; ps = politicians_of g
      in \<lparr>g_ticker = fst kg, trades = length g, politicians = ps,
          buys = sum_bool (map is_buy g), sells = sum_bool (map is_sell g),
          people = length ps\<rparr>)"

text \<open>
  \<^verbatim>\<open>sort_values([a, b], ascending=[False, False])\<close>: a stable sort, descending in the
  first key and then in the second.
\<close>

definition sort_values_desc :: "('a \<Rightarrow> nat) \<Rightarrow> ('a \<Rightarrow> nat) \<Rightarrow> 'a list \<Rightarrow> 'a list" where
  "sort_values_desc a b rows = sort_key (\<lambda>r. (- int (a r), - int (b r))) rows"

definition group_daily ::
  "trade list \<Rightarrow> int \<Rightarrow> string list \<Rightarrow> string list \<Rightarrow> trade list \<times> daily_row list" where
  "group_daily df since whitelist blacklist =
     (let d = window df since whitelist blacklist;
          agg = map daily_agg (groupby_ticker d)
      in (d, sort_values_desc people trades agg))"

record trend_row =
  t_ticker :: string
  t_buys :: nat
  t_sells :: nat
  t_politicians :: "string list"
  total_trades :: nat

definition trend_agg :: "string \<times> trade list \<Rightarrow> trend_row" where
  "trend_agg kg =
     (let g = snd kg; b = sum_bool (map is_buy g); s = sum_bool (map is_sell g)
      in \<lparr>t_ticker = fst kg, t_buys = b, t_sells = s,
          t_politicians = politicians_of g, total_trades = b + s\<rparr>)"

definition trend_30d ::
  "trade list \<Rightarrow> int \<Rightarrow> string list \<Rightarrow> string list \<Rightarrow> trade list \<times> trend_row list" where
  "trend_30d df since whitelist blacklist =
     (let t = window df since whitelist blacklist;
          trend = map trend_agg (groupby_ticker t)
      in (t, sort_values_desc t_buys total_trades trend))"

section \<open>Header resolution\<close>

text \<open>The six keys of the dictionary \<^verbatim>\<open>want\<close> of \<^verbatim>\<open>_guess_header_map\<close>.\<close>

datatype field = FTicker | FName | FCompany | FType | FFilingDate | FTransactionDate

text \<open>\<^verbatim>\<open>want\<close>, in the order in which \<^verbatim>\<open>want.items()\<close> yields it.\<close>

definition want :: "(field \<times> string list) list" where
  "want =
    [(FTicker, [''ticker'', ''symbol'']),
     (FName, [''politician'', ''member'', ''representative'', ''senator'', ''name'']),
     (FCompany, [''company'', ''asset'', ''asset description'']),
     (FType, [''type'', ''transaction'', ''transaction type'']),
     (FFilingDate, [''filing'', ''disclosure'', ''filed'', ''filing date'', ''disclosure date'',
                    ''date filed'']),
     (FTransactionDate, [''transaction date'', ''trade date'', ''date of transaction''])]"

text \<open>\<^verbatim>\<open>re.sub(r"\s+"," ",t).strip().lower()\<close>\<close>

definition norm_header :: "string \<Rightarrow> string" where
  "norm_header t = lower (strip (collapse_ws t))"

text \<open>\<^verbatim>\<open>any(key in t for key in keys)\<close>\<close>

definition any_key_in :: "string list \<Rightarrow> string \<Rightarrow> bool" where
  "any_key_in keys t = list_ex (\<lambda>key. contains key t) keys"

text \<open>
  The body of the inner loop of \<^verbatim>\<open>_guess_header_map\<close>, for header \<open>t\<close> at index
  \<open>i\<close> and one item of \<open>want\<close>:
  \<^verbatim>\<open>if out[k] == -1 and any(key in t for key in keys): out[k]=i\<close>.
\<close>

definition claim_step ::
  "int \<Rightarrow> string \<Rightarrow> field \<times> string list \<Rightarrow> (field \<Rightarrow> int) \<Rightarrow> (field \<Rightarrow> int)" where
  "claim_step i t =
     (\<lambda>(k, keys) out. if out k = -1 \<and> any_key_in keys t then out(k := i) else out)"

text \<open>The inner loop: \<^verbatim>\<open>for k,keys in want.items()\<close>.\<close>

definition claim_fields :: "int \<Rightarrow> string \<Rightarrow> (field \<Rightarrow> int) \<Rightarrow> (field \<Rightarrow> int)" where
  "claim_fields i t out = fold (claim_step i t) want out"

definition guess_header_map :: "string list \<Rightarrow> field \<Rightarrow> int" where
  "guess_header_map th_texts =
     (let th = map norm_header th_texts
      in fold (\<lambda>(i, t) out. claim_fields (int i) t out) (enumerate 0 th) (\<lambda>k. -1))"

text \<open>The alias list of one field, read from \<open>want\<close>.\<close>

definition aliases :: "field \<Rightarrow> string list" where
  "aliases k = (case map_of want k of Some keys \<Rightarrow> keys | None \<Rightarrow> [])"

text \<open>
  Two header texts that differ only in the case of their letters and in whitespace
  around the text.
\<close>

definition same_header :: "string \<Rightarrow> string \<Rightarrow> bool" where
  "same_header t' t \<longleftrightarrow>
     (\<exists>pre post. (\<forall>c \<in> set pre. is_space c) \<and> (\<forall>c \<in> set post. is_space c)
        \<and> lower t' = pre @ lower t @ post)"

definition example_headers :: "string list" where
  "example_headers = [''Ticker'', ''Senator'', ''Type'']"

definition example_headers_padded :: "string list" where
  "example_headers_padded = ['' TICKER'', ''senator  '', ''TYPE'']"

section \<open>Parsed documents\<close>









section \<open>Table extraction\<close>

text \<open>
  One row of the data frame before cleaning: the six canonical columns and the values
  of any further columns. The scraped frame holds strings only and has no further
  columns; the fallback frame can hold \<^verbatim>\<open>None\<close> and \<^verbatim>\<open>NaN\<close> as well.
\<close>

record raw_row =
  raw_ticker :: cell
  raw_name :: cell
  raw_company :: cell
  raw_type :: cell
  raw_filing_date :: cell
  raw_transaction_date :: cell
  raw_extra :: "cell list"









section \<open>Cleaning\<close>

text \<open>\<^verbatim>\<open>astype(str)\<close> on one value of an object column.\<close>

fun astype_str :: "cell \<Rightarrow> string" where
  "astype_str (Str s) = s"
| "astype_str NoneV = ''None''"
| "astype_str NaN = ''nan''"

text \<open>
  \<^verbatim>\<open>pd.to_datetime(column, errors="coerce")\<close> for one value of the column. The date
  parser is a parameter: it reads one string, and may look at the whole column (pandas
  infers a format from it); what it cannot read, and every value that is not a string,
  is \<^verbatim>\<open>NaT\<close>.
\<close>

definition to_datetime :: "(cell list \<Rightarrow> string \<Rightarrow> int option) \<Rightarrow> cell list \<Rightarrow> cell \<Rightarrow> int option" where
  "to_datetime parse col c = (case c of Str s \<Rightarrow> parse col s | _ \<Rightarrow> None)"

text \<open>\<^verbatim>\<open>str.contains(r"buy|purchase", case=False, na=False)\<close> and
  \<^verbatim>\<open>str.contains(r"sell|sale", case=False, na=False)\<close> on one string.\<close>

definition contains_buy :: "string \<Rightarrow> bool" where
  "contains_buy t = (contains ''buy'' (lower t) \<or> contains ''purchase'' (lower t))"

definition contains_sell :: "string \<Rightarrow> bool" where
  "contains_sell t = (contains ''sell'' (lower t) \<or> contains ''sale'' (lower t))"

text \<open>\<^verbatim>\<open>df.drop_duplicates()\<close>: the first of equal rows is kept.\<close>

definition drop_duplicates :: "'a list \<Rightarrow> 'a list" where
  "drop_duplicates xs = rev (remdups (rev xs))"

text \<open>The new values of the columns of one row (lines 81 to 85, and 138 to 142).\<close>

definition clean_row :: "(cell list \<Rightarrow> string \<Rightarrow> int option) \<Rightarrow> raw_row list \<Rightarrow> raw_row \<Rightarrow> trade" where
  "clean_row parse rows r =
     (let ty = strip (astype_str (raw_type r))
      in \<lparr>ticker = clean_ticker (astype_str (raw_ticker r)),
          name = Str (strip (astype_str (raw_name r))),
          company = strip (astype_str (raw_company r)),
          type = ty,
          filing_date = to_datetime parse (map raw_filing_date rows) (raw_filing_date r),
          transaction_date =
            to_datetime parse (map raw_transaction_date rows) (raw_transaction_date r),
          is_buy = contains_buy ty, is_sell = contains_sell ty,
          extra = raw_extra r\<rparr>)"

text \<open>
  The cleaning, filtering and de-duplication that end both
  \<^verbatim>\<open>_extract_from_html\<close> (lines 81 to 87) and \<^verbatim>\<open>load_public_fallback\<close>
  (lines 138 to 143).
\<close>

definition clean :: "(cell list \<Rightarrow> string \<Rightarrow> int option) \<Rightarrow> raw_row list \<Rightarrow> trade list" where
  "clean parse rows =
     drop_duplicates
       (filter (\<lambda>t. ticker t \<noteq> [] \<and> filing_date t \<noteq> None) (map (clean_row parse rows) rows))"


section \<open>The fallback datasets\<close>

text \<open>
  One element of a fetched array is a mapping from keys to values, here a list of
  pairs with distinct keys whose values are strings or \<^verbatim>\<open>null\<close>. The argument
  \<open>frames\<close> of \<open>load_public_fallback\<close> below holds the arrays of the requests
  that succeeded, in the order of \<^verbatim>\<open>urls\<close>; a request that fails adds nothing
  (\<^verbatim>\<open>except Exception: pass\<close>).
\<close>

type_synonym element = "(string \<times> cell) list"

datatype py_error = KeyError string | ValueError | AttributeError

text \<open>
  The columns of \<^verbatim>\<open>pd.concat(frames, ignore_index=True)\<close>: every key of every element,
  in the order of first appearance.
\<close>

definition columns :: "element list \<Rightarrow> string list" where
  "columns rows = drop_duplicates (concat (map (map fst) rows))"

text \<open>The value of a row in a column: \<^verbatim>\<open>NaN\<close> where the element has no such key.\<close>

definition value_at :: "element \<Rightarrow> string \<Rightarrow> cell" where
  "value_at row k = (case map_of row k of Some v \<Rightarrow> v | None \<Rightarrow> NaN)"

text \<open>The new label that \<^verbatim>\<open>df.rename(columns={...})\<close> gives a column.\<close>

definition rename :: "string \<Rightarrow> string" where
  "rename k =
     (if k = ''disclosure_date'' then ''filing_date''
      else if k = ''senator'' \<or> k = ''representative'' then ''name''
      else if k = ''asset_description'' then ''company''
      else k)"

text \<open>The columns that carry the label \<open>c\<close> after the renaming.\<close>

definition sources :: "string list \<Rightarrow> string \<Rightarrow> string list" where
  "sources cols c = filter (\<lambda>k. rename k = c) cols"

text \<open>
  \<^verbatim>\<open>df[c]\<close> as the cleaning lines use it: a \<^verbatim>\<open>KeyError\<close> when no column has the
  label; the one column that has it; and, when several columns have it, a data frame,
  on which the operation applied next raises (\<open>dup\<close>: \<^verbatim>\<open>pd.to_datetime\<close> raises a
  \<^verbatim>\<open>ValueError\<close>, the accessor \<^verbatim>\<open>.str\<close> an \<^verbatim>\<open>AttributeError\<close>).
\<close>

definition column :: "string list \<Rightarrow> string \<Rightarrow> py_error \<Rightarrow> py_error + string" where
  "column cols c dup =
     (case sources cols c of [] \<Rightarrow> Inl (KeyError c) | [k] \<Rightarrow> Inr k | _ \<Rightarrow> Inl dup)"

definition canonical_columns :: "string list" where
  "canonical_columns =
     [''filing_date'', ''transaction_date'', ''ticker'', ''name'', ''company'', ''type'']"

text \<open>
  \<^verbatim>\<open>load_public_fallback\<close>, from line 130 on. The columns are read in the order of
  lines 138 to 140, so the first one that fails decides the exception.
\<close>

definition load_public_fallback ::
  "(cell list \<Rightarrow> string \<Rightarrow> int option) \<Rightarrow> element list list \<Rightarrow> py_error + trade list" where
  "load_public_fallback parse frames =
     (if frames = [] then Inr []
      else
        let rows = concat frames; cols = columns rows in
        (case column cols ''filing_date'' ValueError of Inl e \<Rightarrow> Inl e | Inr kf \<Rightarrow>
        (case column cols ''transaction_date'' ValueError of Inl e \<Rightarrow> Inl e | Inr kd \<Rightarrow>
        (case column cols ''ticker'' AttributeError of Inl e \<Rightarrow> Inl e | Inr kt \<Rightarrow>
        (case column cols ''name'' AttributeError of Inl e \<Rightarrow> Inl e | Inr kn \<Rightarrow>
        (case column cols ''company'' AttributeError of Inl e \<Rightarrow> Inl e | Inr kc \<Rightarrow>
        (case column cols ''type'' AttributeError of Inl e \<Rightarrow> Inl e | Inr ky \<Rightarrow>
          Inr (clean parse
                 (map (\<lambda>row.
                    \<lparr>raw_ticker = value_at row kt, raw_name = value_at row kn,
                     raw_company = value_at row kc, raw_type = value_at row ky,
                     raw_filing_date = value_at row kf,
                     raw_transaction_date = value_at row kd,
                     raw_extra =
                       map (value_at row)
                         (filter (\<lambda>k. rename k \<notin> set canonical_columns) cols)\<rparr>)
                  rows)))))))))"

section \<open>Example data\<close>

definition example_df :: "trade list" where
  "example_df =
    [\<lparr>ticker = ''AAPL'', name = Str ''Jane Doe'', company = ''Apple'', type = ''Buy'',
      filing_date = Some 5, transaction_date = None, is_buy = True, is_sell = False,
      extra = []\<rparr>,
     \<lparr>ticker = ''MSFT'', name = Str ''John Roe'', company = ''Microsoft'', type = ''Sale'',
      filing_date = Some 6, transaction_date = Some 2, is_buy = False, is_sell = True,
      extra = []\<rparr>,
     \<lparr>ticker = ''MSFT'', name = Str ''Ann Poe'', company = ''Microsoft'', type = ''Purchase'',
      filing_date = Some 7, transaction_date = Some 3, is_buy = True, is_sell = False,
      extra = []\<rparr>,
     \<lparr>ticker = ''TSLA'', name = Str ''Ann Poe'', company = ''Tesla'', type = ''Sale'',
      filing_date = Some 1, transaction_date = None, is_buy = False, is_sell = True,
      extra = []\<rparr>]"

definition example_row :: daily_row where
  "example_row = \<lparr>g_ticker = ''MSFT'', trades = 2, politicians = [''Ann Poe'', ''John Roe''],
                  buys = 1, sells = 1, people = 2\<rparr>"

text \<open>A dataset whose only record has an empty discloser name (a scraped row whose name
  cell holds no text).\<close>

definition unnamed_df :: "trade list" where
  "unnamed_df =
    [\<lparr>ticker = ''AAPL'', name = Str [], company = ''Apple'', type = ''Buy'',
      filing_date = Some 5, transaction_date = None, is_buy = True, is_sell = False,
      extra = []\<rparr>]"

text \<open>The name list as the specification words it: the sorted distinct non-empty names.\<close>

definition nonempty_politicians_of :: "trade list \<Rightarrow> string list" where
  "nonempty_politicians_of g =
     sort (remdups (filter (\<lambda>x. x \<noteq> []) (str_values (map name g))))"

text \<open>A date parser for the examples: two dates are read, nothing else is.\<close>

definition example_parse :: "cell list \<Rightarrow> string \<Rightarrow> int option" where
  "example_parse col s =
     (if s = ''2024-01-05'' then Some 5 else if s = ''2024-01-06'' then Some 6 else None)"










text \<open>Two fetched arrays; the second element of the first has no ticker and no date.\<close>

definition example_frames :: "element list list" where
  "example_frames =
     [[[(''ticker'', Str ''aapl''), (''type'', Str ''Purchase''),
        (''transaction_date'', Str ''2024-01-02''), (''disclosure_date'', Str ''2024-01-05''),
        (''senator'', Str ''Jane Doe''), (''asset_description'', Str ''Apple Inc''),
        (''amount'', Str ''$1,001 - $15,000'')],
       [(''type'', Str ''Sale (Full)''), (''senator'', Str ''John Roe'')]],
      [[(''ticker'', NoneV), (''disclosure_date'', Str ''2024-01-06''),
        (''senator'', Str ''Ann Poe'')]]]"

text \<open>An array whose one element has no \<open>disclosure_date\<close>.\<close>

definition undated_frames :: "element list list" where
  "undated_frames =
     [[[(''ticker'', Str ''AAPL''), (''type'', Str ''Purchase''),
        (''transaction_date'', Str ''2024-01-02''),
        (''senator'', Str ''Jane Doe''), (''asset_description'', Str ''Apple Inc'')]]]"


section \<open>Properties of ticker cleaning\<close>

lemma to_upper_uppers: "c \<in> set uppers \<Longrightarrow> to_upper c = c"
  unfolding uppers_def to_upper_def lowers_def by (simp, elim disjE; simp)

lemma to_upper_dot: "to_upper (CHR ''.'') = CHR ''.''"
  by (simp add: to_upper_def uppers_def lowers_def)

lemma to_upper_ticker_char: "ticker_char c \<Longrightarrow> to_upper c = c"
  unfolding ticker_char_def using to_upper_uppers to_upper_dot by blast

lemma upper_clean_ticker: "upper (clean_ticker s) = clean_ticker s"
proof -
  have "\<forall>c \<in> set (clean_ticker s). to_upper c = c"
    by (simp add: clean_ticker_def to_upper_ticker_char)
  then show ?thesis
    unfolding upper_def by (simp add: map_idI)
qed

text \<open>
  Claim C7. Ticker cleaning is idempotent: cleaning a cleaned ticker returns it unchanged;
  and \<open>AAPL\<close> stays \<open>AAPL\<close>, \<open>aapl\<close> followed by a space becomes \<open>AAPL\<close>,
  \<open>BRK.B!\<close> becomes \<open>BRK.B\<close>.
\<close>

theorem clean_ticker_idempotent:
  "clean_ticker (clean_ticker s) = clean_ticker s
   \<and> clean_ticker ''AAPL'' = ''AAPL''
   \<and> clean_ticker ''aapl '' = ''AAPL''
   \<and> clean_ticker ''BRK.B!'' = ''BRK.B''"
proof -
  have "clean_ticker (clean_ticker s) = filter ticker_char (clean_ticker s)"
    unfolding clean_ticker_def[of "clean_ticker s"] upper_clean_ticker ..
  also have "\<dots> = clean_ticker s"
    by (simp add: clean_ticker_def)
  finally have idem: "clean_ticker (clean_ticker s) = clean_ticker s" .
  have e1: "clean_ticker ''AAPL'' = ''AAPL''"
    by (simp add: clean_ticker_def upper_def to_upper_def ticker_char_def uppers_def lowers_def)
  have e2: "clean_ticker ''aapl '' = ''AAPL''"
    by (simp add: clean_ticker_def upper_def to_upper_def ticker_char_def uppers_def lowers_def)
  have e3: "clean_ticker ''BRK.B!'' = ''BRK.B''"
    by (simp add: clean_ticker_def upper_def to_upper_def ticker_char_def uppers_def lowers_def)
  from idem e1 e2 e3 show ?thesis by simp
qed

section \<open>Properties of the string functions\<close>

lemma uppers_not_space: "c \<in> set uppers \<Longrightarrow> \<not> is_space c"
  unfolding uppers_def is_space_def by (simp, elim disjE; simp)

lemma lowers_not_space: "c \<in> set lowers \<Longrightarrow> \<not> is_space c"
  unfolding lowers_def is_space_def by (simp, elim disjE; simp)

lemma to_lower_cases: "to_lower c = c \<or> (c \<in> set uppers \<and> to_lower c \<in> set lowers)"
proof (cases "map_of (zip uppers lowers) c")
  case None
  then show ?thesis by (simp add: to_lower_def)
next
  case (Some l)
  then have "(c, l) \<in> set (zip uppers lowers)" by (rule map_of_SomeD)
  then have "c \<in> set uppers" and "l \<in> set lowers"
    by (auto dest: set_zip_leftD set_zip_rightD)
  then show ?thesis using Some by (simp add: to_lower_def)
qed

lemma is_space_to_lower: "is_space (to_lower c) = is_space c"
  using to_lower_cases[of c] uppers_not_space[of c] lowers_not_space[of "to_lower c"]
  by auto

lemma to_lower_space: "to_lower (CHR '' '') = CHR '' ''"
  by (simp add: to_lower_def uppers_def lowers_def)

lemma collapse_from_lower: "collapse_from b (lower s) = lower (collapse_from b s)"
  by (induction s arbitrary: b) (simp_all add: lower_def is_space_to_lower to_lower_space)

lemma dropWhile_space_lower: "dropWhile is_space (lower s) = lower (dropWhile is_space s)"
  by (induction s) (simp_all add: lower_def is_space_to_lower)

lemma strip_lower: "strip (lower s) = lower (strip s)"
proof -
  have r: "rev (lower x) = lower (rev x)" for x
    by (simp add: lower_def rev_map)
  show ?thesis
    unfolding strip_def dropWhile_space_lower r ..
qed

lemma norm_header_lower: "norm_header t = strip (collapse_ws (lower t))"
  by (simp add: norm_header_def collapse_ws_def collapse_from_lower strip_lower)

text \<open>Stripping on the right only, and how it meets a leading character.\<close>

lemma rstrip_Cons:
  "rev (dropWhile is_space (rev (x # ys))) =
     (if \<forall>c \<in> set ys. is_space c then (if is_space x then [] else [x])
      else x # rev (dropWhile is_space (rev ys)))"
  by (simp add: dropWhile_append)

lemma rstrip_Nil_iff: "rev (dropWhile is_space (rev ys)) = [] \<longleftrightarrow> (\<forall>c \<in> set ys. is_space c)"
  by (simp add: dropWhile_eq_Nil_conv)

lemma rstrip_Cons_cong:
  assumes "rev (dropWhile is_space (rev ys)) = rev (dropWhile is_space (rev zs))"
  shows "rev (dropWhile is_space (rev (x # ys))) = rev (dropWhile is_space (rev (x # zs)))"
proof -
  have "(\<forall>c \<in> set ys. is_space c) \<longleftrightarrow> (\<forall>c \<in> set zs. is_space c)"
    using assms rstrip_Nil_iff[of ys] rstrip_Nil_iff[of zs] by simp
  then show ?thesis
    unfolding rstrip_Cons using assms by simp
qed

lemma strip_commute:
  "strip s = dropWhile is_space (rev (dropWhile is_space (rev s)))"
proof (induction s)
  case Nil
  then show ?case by (simp add: strip_def)
next
  case (Cons x s)
  show ?case
  proof (cases "is_space x")
    case True
    have "strip (x # s) = strip s" using True by (simp add: strip_def)
    also have "\<dots> = dropWhile is_space (rev (dropWhile is_space (rev s)))" by (rule Cons.IH)
    also have "\<dots> = dropWhile is_space (rev (dropWhile is_space (rev (x # s))))"
    proof (cases "\<forall>c \<in> set s. is_space c")
      case all: True
      have e: "dropWhile is_space (rev s) = []"
        using all by (simp add: dropWhile_eq_Nil_conv)
      show ?thesis
        unfolding rstrip_Cons by (simp add: e all True)
    next
      case False
      have "rev (dropWhile is_space (rev (x # s))) = x # rev (dropWhile is_space (rev s))"
        unfolding rstrip_Cons using False by (simp only: if_False)
      then show ?thesis
        using True by (simp only: dropWhile.simps if_True)
    qed
    finally show ?thesis .
  next
    case False
    have "strip (x # s) = rev (dropWhile is_space (rev (x # s)))"
      using False by (simp add: strip_def)
    also have "\<dots> = dropWhile is_space (rev (dropWhile is_space (rev (x # s))))"
      unfolding rstrip_Cons using False by simp
    finally show ?thesis .
  qed
qed

lemma collapse_from_all_space:
  "\<forall>c \<in> set ws. is_space c \<Longrightarrow> \<forall>c \<in> set (collapse_from b ws). is_space c"
  by (induction ws arbitrary: b) (auto simp: is_space_def)

lemma lstrip_collapse_from:
  "dropWhile is_space (collapse_from b t) = dropWhile is_space (collapse_from True t)"
  by (cases t) (simp_all add: is_space_def)

lemma lstrip_collapse_from_pre:
  "\<forall>c \<in> set ws. is_space c \<Longrightarrow>
   dropWhile is_space (collapse_from b (ws @ t)) = dropWhile is_space (collapse_from True t)"
proof (induction ws arbitrary: b)
  case Nil
  then show ?case using lstrip_collapse_from[of b t] by simp
next
  case (Cons w ws)
  then have w: "is_space w" and ws: "\<forall>c \<in> set ws. is_space c" by simp_all
  have sp: "is_space (CHR '' '')" by (simp add: is_space_def)
  have "dropWhile is_space (collapse_from b ((w # ws) @ t))
          = dropWhile is_space (collapse_from True (ws @ t))"
    using w sp by simp
  then show ?case using Cons.IH[OF ws, of True] by simp
qed

lemma rstrip_collapse_from_post:
  "\<forall>c \<in> set ws. is_space c \<Longrightarrow>
   rev (dropWhile is_space (rev (collapse_from b (s @ ws))))
     = rev (dropWhile is_space (rev (collapse_from b s)))"
proof (induction s arbitrary: b)
  case Nil
  have "\<forall>c \<in> set (collapse_from b ws). is_space c"
    using Nil by (rule collapse_from_all_space)
  then show ?case by (simp add: dropWhile_eq_Nil_conv)
next
  case (Cons x s)
  note ih = Cons.IH[OF Cons.prems]
  show ?case
  proof (cases "is_space x")
    case True
    show ?thesis
    proof (cases b)
      case True
      then show ?thesis using \<open>is_space x\<close> ih[of True] by simp
    next
      case False
      have "collapse_from b ((x # s) @ ws) = CHR '' '' # collapse_from True (s @ ws)"
        and "collapse_from b (x # s) = CHR '' '' # collapse_from True s"
        using False \<open>is_space x\<close> by simp_all
      then show ?thesis using rstrip_Cons_cong[OF ih[of True]] by simp
    qed
  next
    case False
    have "collapse_from b ((x # s) @ ws) = x # collapse_from False (s @ ws)"
      and "collapse_from b (x # s) = x # collapse_from False s"
      using False by simp_all
    then show ?thesis using rstrip_Cons_cong[OF ih[of False]] by simp
  qed
qed

lemma strip_collapse_ws_padded:
  assumes "\<forall>c \<in> set pre. is_space c" and "\<forall>c \<in> set post. is_space c"
  shows "strip (collapse_ws (pre @ s @ post)) = strip (collapse_ws s)"
proof -
  have "strip (collapse_ws (pre @ s @ post))
        = rev (dropWhile is_space (rev (dropWhile is_space (collapse_from True (s @ post)))))"
    unfolding strip_def collapse_ws_def lstrip_collapse_from_pre[OF assms(1)] ..
  also have "\<dots> = strip (collapse_from False (s @ post))"
    unfolding strip_def lstrip_collapse_from[of False] ..
  also have "\<dots> = dropWhile is_space (rev (dropWhile is_space (rev (collapse_from False s))))"
    unfolding strip_commute rstrip_collapse_from_post[OF assms(2)] ..
  also have "\<dots> = strip (collapse_ws s)"
    unfolding strip_commute collapse_ws_def ..
  finally show ?thesis .
qed

lemma same_header_norm: "same_header t' t \<Longrightarrow> norm_header t' = norm_header t"
  unfolding same_header_def norm_header_lower
  using strip_collapse_ws_padded by force

section \<open>Properties of header resolution\<close>

lemma claim_step_apply:
  "claim_step i t (k', keys') out k =
     (if k = k' \<and> out k = -1 \<and> any_key_in keys' t then i else out k)"
  by (simp add: claim_step_def)

lemma fold_claim:
  "distinct (map fst w) \<Longrightarrow>
   fold (claim_step i t) w out k
   = (case map_of w k of None \<Rightarrow> out k
      | Some keys \<Rightarrow> if out k = -1 \<and> any_key_in keys t then i else out k)"
proof (induction w arbitrary: out)
  case Nil
  then show ?case by simp
next
  case (Cons p w)
  obtain k' keys' where p: "p = (k', keys')" by (cases p)
  from Cons.prems have d: "distinct (map fst w)" and nk: "k' \<notin> fst ` set w"
    by (simp_all add: p)
  have none: "map_of w k' = None" using nk by (simp add: map_of_eq_None_iff)
  let ?out = "claim_step i t (k', keys') out"
  have ih: "fold (claim_step i t) (p # w) out k
     = (case map_of w k of None \<Rightarrow> ?out k
        | Some keys \<Rightarrow> if ?out k = -1 \<and> any_key_in keys t then i else ?out k)"
    using Cons.IH[OF d, of ?out] by (simp add: p)
  show ?case
  proof (cases "k = k'")
    case True
    have "map_of w k = None" using none True by simp
    then show ?thesis
      unfolding ih using True by (simp add: p claim_step_apply)
  next
    case False
    have o: "?out k = out k" using False by (simp add: claim_step_apply)
    have m: "map_of (p # w) k = map_of w k" using False by (simp add: p)
    show ?thesis unfolding ih o m ..
  qed
qed

lemma distinct_want: "distinct (map fst want)"
  by (simp add: want_def)

lemma map_of_want: "map_of want k = Some (aliases k)"
  by (cases k) (simp_all add: aliases_def want_def)

lemma claim_fields_apply:
  "claim_fields i t out k = (if out k = -1 \<and> any_key_in (aliases k) t then i else out k)"
  by (simp add: claim_fields_def fold_claim[OF distinct_want] map_of_want)

lemma fold_headers_keep:
  "out k \<noteq> -1 \<Longrightarrow>
   fold (\<lambda>(i, t) out. claim_fields (int i) t out) (enumerate n th) out k = out k"
  by (induction th arbitrary: n out) (simp_all add: claim_fields_apply)

lemma fold_headers_none:
  "out k = -1 \<Longrightarrow> \<forall>j < length th. \<not> any_key_in (aliases k) (th ! j) \<Longrightarrow>
   fold (\<lambda>(i, t) out. claim_fields (int i) t out) (enumerate n th) out k = -1"
proof (induction th arbitrary: n out)
  case Nil
  then show ?case by simp
next
  case (Cons t th)
  from Cons.prems(2) have t: "\<not> any_key_in (aliases k) t" by auto
  from Cons.prems(2) have rest: "\<forall>j < length th. \<not> any_key_in (aliases k) (th ! j)" by auto
  have "claim_fields (int n) t out k = -1"
    using Cons.prems(1) t by (simp add: claim_fields_apply)
  from Cons.IH[where out = "claim_fields (int n) t out" and n = "Suc n", OF this rest]
  show ?case by simp
qed

lemma fold_headers_first:
  "out k = -1 \<Longrightarrow> i < length th \<Longrightarrow> any_key_in (aliases k) (th ! i) \<Longrightarrow>
   \<forall>j < i. \<not> any_key_in (aliases k) (th ! j) \<Longrightarrow>
   fold (\<lambda>(i, t) out. claim_fields (int i) t out) (enumerate n th) out k = int (n + i)"
proof (induction th arbitrary: n out i)
  case Nil
  then show ?case by simp
next
  case (Cons t th)
  show ?case
  proof (cases i)
    case 0
    then have "claim_fields (int n) t out k = int n"
      using Cons.prems(1,3) by (simp add: claim_fields_apply)
    moreover have "int n \<noteq> -1" by simp
    ultimately have
      "fold (\<lambda>(i, t) out. claim_fields (int i) t out) (enumerate (Suc n) th)
         (claim_fields (int n) t out) k = int n"
      using fold_headers_keep[of "claim_fields (int n) t out" k "Suc n" th] by simp
    then show ?thesis using 0 by simp
  next
    case (Suc i')
    from Cons.prems(4) Suc have "\<not> any_key_in (aliases k) t" by auto
    then have o: "claim_fields (int n) t out k = -1"
      using Cons.prems(1) by (simp add: claim_fields_apply)
    have l: "i' < length th" using Cons.prems(2) Suc by simp
    have m: "any_key_in (aliases k) (th ! i')" using Cons.prems(3) Suc by simp
    have f: "\<forall>j < i'. \<not> any_key_in (aliases k) (th ! j)"
      using Cons.prems(4) Suc by auto
    from Cons.IH[where out = "claim_fields (int n) t out" and n = "Suc n" and i = i',
        OF o l m f]
    show ?thesis using Suc by simp
  qed
qed

lemma guess_header_map_first:
  assumes "i < length ths" and "any_key_in (aliases k) (norm_header (ths ! i))"
    and "\<forall>j < i. \<not> any_key_in (aliases k) (norm_header (ths ! j))"
  shows "guess_header_map ths k = int i"
  using fold_headers_first[of "\<lambda>k. -1" k i "map norm_header ths" 0] assms
  by (simp add: guess_header_map_def Let_def)

lemma guess_header_map_none:
  assumes "\<forall>j < length ths. \<not> any_key_in (aliases k) (norm_header (ths ! j))"
  shows "guess_header_map ths k = -1"
  using fold_headers_none[of "\<lambda>k. -1" k "map norm_header ths" 0] assms
  by (simp add: guess_header_map_def Let_def)

lemma guess_header_map_same_header:
  assumes "list_all2 same_header ths' ths"
  shows "guess_header_map ths' = guess_header_map ths"
proof -
  have "map norm_header ths' = map norm_header ths"
    using assms by (induction rule: list_all2_induct) (simp_all add: same_header_norm)
  then show ?thesis by (simp add: guess_header_map_def)
qed

text \<open>
  Claim C2, as amended. For every header list, each field (ticker, name and type among
  them) is assigned the index of the first header whose normalised text (whitespace runs
  collapsed, trimmed, lowercased) contains one of the field's aliases as a substring,
  and \<open>-1\<close> when no header does; the result is the same for header lists that differ
  only in letter case and in whitespace around the header texts.
\<close>

theorem guess_header_map_first_match:
  "(\<forall>k i. i < length ths \<and> any_key_in (aliases k) (norm_header (ths ! i))
           \<and> (\<forall>j < i. \<not> any_key_in (aliases k) (norm_header (ths ! j)))
         \<longrightarrow> guess_header_map ths k = int i)
   \<and> (\<forall>k. (\<forall>j < length ths. \<not> any_key_in (aliases k) (norm_header (ths ! j)))
         \<longrightarrow> guess_header_map ths k = -1)
   \<and> (\<forall>ths'. list_all2 same_header ths' ths \<longrightarrow> guess_header_map ths' = guess_header_map ths)"
  using guess_header_map_first guess_header_map_none guess_header_map_same_header
  by blast

theorem guess_header_map_first_match_witness:
  "2 < length example_headers
   \<and> any_key_in (aliases FType) (norm_header (example_headers ! 2))
   \<and> \<not> any_key_in (aliases FType) (norm_header (example_headers ! 0))
   \<and> \<not> any_key_in (aliases FType) (norm_header (example_headers ! 1))
   \<and> guess_header_map example_headers FType = 2
   \<and> \<not> any_key_in (aliases FCompany) (norm_header (example_headers ! 0))
   \<and> \<not> any_key_in (aliases FCompany) (norm_header (example_headers ! 1))
   \<and> \<not> any_key_in (aliases FCompany) (norm_header (example_headers ! 2))
   \<and> guess_header_map example_headers FCompany = -1
   \<and> list_all2 same_header example_headers_padded example_headers
   \<and> guess_header_map example_headers_padded = guess_header_map example_headers"
proof -
  have l: "2 < length example_headers" by (simp add: example_headers_def)
  have t2: "any_key_in (aliases FType) (norm_header (example_headers ! 2))" by code_simp
  have t0: "\<not> any_key_in (aliases FType) (norm_header (example_headers ! 0))" by code_simp
  have t1: "\<not> any_key_in (aliases FType) (norm_header (example_headers ! 1))" by code_simp
  have c0: "\<not> any_key_in (aliases FCompany) (norm_header (example_headers ! 0))" by code_simp
  have c1: "\<not> any_key_in (aliases FCompany) (norm_header (example_headers ! 1))" by code_simp
  have c2: "\<not> any_key_in (aliases FCompany) (norm_header (example_headers ! 2))" by code_simp
  have before: "\<forall>j < 2. \<not> any_key_in (aliases FType) (norm_header (example_headers ! j))"
    using t0 t1 by (auto simp: less_Suc_eq numeral_2_eq_2)
  have nowhere:
    "\<forall>j < length example_headers. \<not> any_key_in (aliases FCompany) (norm_header (example_headers ! j))"
    using c0 c1 c2 by (auto simp: example_headers_def less_Suc_eq numeral_2_eq_2)
  have sp: "is_space (CHR '' '')" by (simp add: is_space_def)
  have s0: "same_header '' TICKER'' ''Ticker''"
    unfolding same_header_def
    by (rule exI[of _ "'' ''"], rule exI[of _ "[]"])
       (simp add: sp lower_def to_lower_def uppers_def lowers_def)
  have s1: "same_header ''senator  '' ''Senator''"
    unfolding same_header_def
    by (rule exI[of _ "[]"], rule exI[of _ "''  ''"])
       (simp add: sp lower_def to_lower_def uppers_def lowers_def)
  have s2: "same_header ''TYPE'' ''Type''"
    unfolding same_header_def
    by (rule exI[of _ "[]"], rule exI[of _ "[]"])
       (simp add: lower_def to_lower_def uppers_def lowers_def)
  have same: "list_all2 same_header example_headers_padded example_headers"
    using s0 s1 s2 by (simp add: example_headers_padded_def example_headers_def)
  from guess_header_map_first_match[of example_headers] l t2 before
  have r1: "guess_header_map example_headers FType = 2" by fastforce
  from guess_header_map_first_match[of example_headers] nowhere
  have r2: "guess_header_map example_headers FCompany = -1" by blast
  from guess_header_map_first_match[of example_headers] same
  have r3: "guess_header_map example_headers_padded = guess_header_map example_headers" by blast
  from l t2 t0 t1 r1 c0 c1 c2 r2 same r3 show ?thesis by simp
qed

text \<open>
  Claim C2 as stated fails on its own example: in the header list
  \<open>Symbol\<close>, \<open>Rep\<close>, \<open>Trans Type\<close> no header contains an alias of \<open>name\<close>
  (\<open>rep\<close> contains neither \<open>representative\<close> nor any other alias), so \<open>name\<close>
  stays unresolved.
\<close>

theorem guess_header_map_rep_counterexample:
  "guess_header_map [''Symbol'', ''Rep'', ''Trans Type''] FTicker = 0
   \<and> guess_header_map [''Symbol'', ''Rep'', ''Trans Type''] FName = -1
   \<and> guess_header_map [''Symbol'', ''Rep'', ''Trans Type''] FType = 2"
  by code_simp

section \<open>Properties of table extraction\<close>















section \<open>Properties of cleaning and of the fallback\<close>


lemma length_drop_duplicates: "length (drop_duplicates xs) \<le> length xs"
  using length_remdups_leq[of "rev xs"] by (simp add: drop_duplicates_def)


lemma length_clean: "length (clean parse rows) \<le> length rows"
proof -
  have "length (clean parse rows)
          \<le> length (filter (\<lambda>t. ticker t \<noteq> [] \<and> filing_date t \<noteq> None)
                      (map (clean_row parse rows) rows))"
    unfolding clean_def by (rule length_drop_duplicates)
  also have "\<dots> \<le> length (map (clean_row parse rows) rows)"
    by (rule length_filter_le)
  finally show ?thesis by simp
qed





lemma column_single: "sources cols c = [k] \<Longrightarrow> column cols c dup = Inr k"
  by (simp add: column_def)

lemma length_one_single: "length xs = 1 \<Longrightarrow> \<exists>k. xs = [k]"
  by (cases xs) simp_all

text \<open>
  Claim C9, as amended. When each of the six canonical columns has exactly one source
  key occurring somewhere in the fetched arrays (\<open>filing_date\<close> from
  \<open>disclosure_date\<close>, \<open>name\<close> from \<open>senator\<close> or \<open>representative\<close>, \<open>company\<close>
  from \<open>asset_description\<close>, and \<open>ticker\<close>, \<open>type\<close>, \<open>transaction_date\<close>),
  fallback normalisation raises no error, whatever keys the single elements lack, and
  returns a dataset with at most one record for each element. With no array fetched it
  returns the empty frame.
\<close>

theorem load_public_fallback_total:
  assumes "frames = [] \<or>
           (\<forall>c \<in> set canonical_columns. length (sources (columns (concat frames)) c) = 1)"
  shows "\<exists>df. load_public_fallback parse frames = Inr df
              \<and> length df \<le> length (concat frames)"
proof (cases "frames = []")
  case True
  then show ?thesis by (simp add: load_public_fallback_def)
next
  case False
  with assms have one: "\<forall>c \<in> set canonical_columns. length (sources (columns (concat frames)) c) = 1"
    by blast
  let ?cols = "columns (concat frames)"
  have ex: "\<exists>k. sources ?cols c = [k]" if "c \<in> set canonical_columns" for c
    using one that length_one_single by blast
  have col: "\<exists>k. column ?cols c dup = Inr k" if "c \<in> set canonical_columns" for c dup
    using ex[OF that] column_single by blast
  obtain kf where kf: "column ?cols ''filing_date'' ValueError = Inr kf"
    using col[of "''filing_date''"] by (auto simp: canonical_columns_def)
  obtain kd where kd: "column ?cols ''transaction_date'' ValueError = Inr kd"
    using col[of "''transaction_date''"] by (auto simp: canonical_columns_def)
  obtain kt where kt: "column ?cols ''ticker'' AttributeError = Inr kt"
    using col[of "''ticker''"] by (auto simp: canonical_columns_def)
  obtain kn where kn: "column ?cols ''name'' AttributeError = Inr kn"
    using col[of "''name''"] by (auto simp: canonical_columns_def)
  obtain kc where kc: "column ?cols ''company'' AttributeError = Inr kc"
    using col[of "''company''"] by (auto simp: canonical_columns_def)
  obtain ky where ky: "column ?cols ''type'' AttributeError = Inr ky"
    using col[of "''type''"] by (auto simp: canonical_columns_def)
  obtain rows where r: "load_public_fallback parse frames = Inr (clean parse rows)"
    and l: "length rows = length (concat frames)"
    using False kf kd kt kn kc ky by (simp add: load_public_fallback_def Let_def)
  have "length (clean parse rows) \<le> length (concat frames)"
    using length_clean[of parse rows] l by simp
  with r show ?thesis by blast
qed

theorem load_public_fallback_total_witness:
  "list_all (\<lambda>c. length (sources (columns (concat example_frames)) c) = 1) canonical_columns
   \<and> map_of (hd (tl (concat example_frames))) ''ticker'' = None
   \<and> (\<exists>df. load_public_fallback example_parse example_frames = Inr df
          \<and> length df \<le> length (concat example_frames))"
proof -
  have h: "list_all (\<lambda>c. length (sources (columns (concat example_frames)) c) = 1)
             canonical_columns"
    by code_simp
  then have "\<forall>c \<in> set canonical_columns.
               length (sources (columns (concat example_frames)) c) = 1"
    by (simp add: list_all_iff)
  then have "frames = [] \<or> (\<forall>c \<in> set canonical_columns.
               length (sources (columns (concat example_frames)) c) = 1)" for frames :: "element list list"
    by blast
  from load_public_fallback_total[OF this, of example_parse]
  have r: "\<exists>df. load_public_fallback example_parse example_frames = Inr df
              \<and> length df \<le> length (concat example_frames)" .
  have k: "map_of (hd (tl (concat example_frames))) ''ticker'' = None" by code_simp
  from h k r show ?thesis by blast
qed

text \<open>
  Claim C9 as stated fails: when no element has the key \<open>disclosure_date\<close>, reading the
  column \<open>filing_date\<close> raises a \<^verbatim>\<open>KeyError\<close>.
\<close>

theorem load_public_fallback_missing_key_counterexample:
  "load_public_fallback example_parse undated_frames = Inl (KeyError ''filing_date'')"
  by code_simp

section \<open>Properties of the aggregation\<close>

lemma sort_values_desc_nth:
  assumes i: "Suc i < length (sort_values_desc a b rows)"
  shows "a (sort_values_desc a b rows ! Suc i) \<le> a (sort_values_desc a b rows ! i) \<and>
   (a (sort_values_desc a b rows ! Suc i) = a (sort_values_desc a b rows ! i) \<longrightarrow>
    b (sort_values_desc a b rows ! Suc i) \<le> b (sort_values_desc a b rows ! i))"
proof -
  let ?f = "\<lambda>r. (- int (a r), - int (b r))"
  let ?ys = "sort_values_desc a b rows"
  have "sorted (map ?f ?ys)" unfolding sort_values_desc_def by (rule sorted_sort_key)
  then have "map ?f ?ys ! i \<le> map ?f ?ys ! Suc i"
    using i by (simp add: sorted_iff_nth_Suc)
  then have "?f (?ys ! i) \<le> ?f (?ys ! Suc i)" using i by simp
  then show ?thesis by (auto simp: less_eq_prod_def)
qed

lemma set_sort_values_desc: "set (sort_values_desc a b rows) = set rows"
  by (simp add: sort_values_desc_def)

lemma sum_bool_count: "sum_bool (map p g) = length (filter p g)"
  by (induction g) (simp_all add: sum_bool_def)

lemma set_str_values: "set (str_values cs) = {s. Str s \<in> set cs}"
  by (induction cs rule: str_values.induct) auto

lemma length_str_values: "length (str_values cs) \<le> length cs"
  by (induction cs rule: str_values.induct) auto

lemma window_filter:
  "window df since wl bl =
     filter (\<lambda>r. filed_since since r \<and> (wl = [] \<or> ticker r \<in> set wl)
                  \<and> (bl = [] \<or> ticker r \<notin> set bl)) df"
  by (auto simp: window_def Let_def intro: filter_cong)

lemma groupby_ticker_member:
  "kg \<in> set (groupby_ticker d) \<longleftrightarrow>
     fst kg \<in> ticker ` set d \<and> snd kg = filter (\<lambda>r. ticker r = fst kg) d"
  by (cases kg) (auto simp: groupby_ticker_def)

lemma politicians_of_props:
  "sorted (politicians_of g) \<and> distinct (politicians_of g)
   \<and> set (politicians_of g) = {s. \<exists>r \<in> set g. name r = Str s}"
proof -
  have "set (politicians_of g) = {s. Str s \<in> name ` set g}"
    by (simp add: politicians_of_def set_str_values)
  also have "\<dots> = {s. \<exists>r \<in> set g. name r = Str s}"
    by (auto simp: image_iff) metis
  finally show ?thesis by (simp add: politicians_of_def)
qed

lemma length_politicians_of_card:
  "length (politicians_of g) = card {s. \<exists>r \<in> set g. name r = Str s}"
proof -
  have d: "distinct (politicians_of g)"
    using politicians_of_props[of g] by blast
  have s: "set (politicians_of g) = {s. \<exists>r \<in> set g. name r = Str s}"
    using politicians_of_props[of g] by blast
  have "length (politicians_of g) = card (set (politicians_of g))"
    using d by (rule distinct_card[symmetric])
  then show ?thesis unfolding s .
qed

lemma length_politicians_of_le: "length (politicians_of g) \<le> length g"
proof -
  have "length (politicians_of g) = length (remdups (str_values (map name g)))"
    by (simp add: politicians_of_def)
  also have "\<dots> \<le> length (str_values (map name g))" by (rule length_remdups_leq)
  also have "\<dots> \<le> length g" using length_str_values[of "map name g"] by simp
  finally show ?thesis .
qed

lemma daily_rows_member:
  assumes "row \<in> set (snd (group_daily df since wl bl))"
  shows "\<exists>r \<in> set (window df since wl bl). ticker r = g_ticker row"
    and "row = daily_agg (g_ticker row, filter (\<lambda>r. ticker r = g_ticker row) (window df since wl bl))"
proof -
  from assms obtain kg where kg: "kg \<in> set (groupby_ticker (window df since wl bl))"
    and row: "row = daily_agg kg"
    by (auto simp: group_daily_def Let_def set_sort_values_desc)
  have t: "g_ticker row = fst kg" using row by (simp add: daily_agg_def Let_def)
  from kg have "fst kg \<in> ticker ` set (window df since wl bl)"
    and s: "snd kg = filter (\<lambda>r. ticker r = fst kg) (window df since wl bl)"
    by (simp_all add: groupby_ticker_member)
  then show "\<exists>r \<in> set (window df since wl bl). ticker r = g_ticker row"
    using t by auto
  have "kg = (g_ticker row, filter (\<lambda>r. ticker r = g_ticker row) (window df since wl bl))"
    using t s by (cases kg) simp
  then show "row = daily_agg (g_ticker row, filter (\<lambda>r. ticker r = g_ticker row) (window df since wl bl))"
    using row by simp
qed

text \<open>
  Claim C1, as amended. For every dataset, cutoff and filter pair, every row of the
  \<open>group_daily\<close> result has \<open>politicians\<close> equal to the sorted list of the distinct
  names that are strings (the empty string included) among that ticker's records in the
  filtered window, \<open>people\<close> equal to the size of that set, \<open>trades\<close> equal to the
  record count, and \<open>buys\<close> and \<open>sells\<close> equal to the numbers of records with
  \<open>is_buy\<close> and \<open>is_sell\<close> true.
\<close>

theorem group_daily_rows:
  assumes "row \<in> set (snd (group_daily df since wl bl))"
  defines "recs \<equiv> filter (\<lambda>r. ticker r = g_ticker row)
                     (filter (\<lambda>r. filed_since since r \<and> (wl = [] \<or> ticker r \<in> set wl)
                                  \<and> (bl = [] \<or> ticker r \<notin> set bl)) df)"
  shows "sorted (politicians row) \<and> distinct (politicians row)
     \<and> set (politicians row) = {s. \<exists>r \<in> set recs. name r = Str s}
     \<and> people row = card {s. \<exists>r \<in> set recs. name r = Str s}
     \<and> trades row = length recs
     \<and> buys row = length (filter is_buy recs)
     \<and> sells row = length (filter is_sell recs)"
proof -
  have recs: "recs = filter (\<lambda>r. ticker r = g_ticker row) (window df since wl bl)"
    unfolding recs_def window_filter ..
  have row: "row = daily_agg (g_ticker row, recs)"
    using daily_rows_member(2)[OF assms(1)] recs by simp
  have p: "politicians row = politicians_of recs"
    by (subst row) (simp add: daily_agg_def Let_def)
  have n: "people row = length (politicians_of recs)"
    by (subst row) (simp add: daily_agg_def Let_def)
  have t: "trades row = length recs"
    by (subst row) (simp add: daily_agg_def Let_def)
  have b: "buys row = length (filter is_buy recs)"
    by (subst row) (simp add: daily_agg_def Let_def sum_bool_count)
  have s: "sells row = length (filter is_sell recs)"
    by (subst row) (simp add: daily_agg_def Let_def sum_bool_count)
  show ?thesis
    using politicians_of_props[of recs] length_politicians_of_card[of recs] p n t b s
    by simp
qed

theorem group_daily_rows_witness:
  "example_row \<in> set (snd (group_daily example_df 2 [] []))
   \<and> trades example_row =
       length (filter (\<lambda>r. ticker r = g_ticker example_row)
                 (filter (\<lambda>r. filed_since 2 r \<and> ([] = ([]::string list) \<or> ticker r \<in> set [])
                              \<and> ([] = ([]::string list) \<or> ticker r \<notin> set [])) example_df))
   \<and> sorted (politicians example_row) \<and> distinct (politicians example_row)"
proof -
  have h: "example_row \<in> set (snd (group_daily example_df 2 [] []))"
    by code_simp
  from group_daily_rows[OF h] h show ?thesis by blast
qed

text \<open>
  Claim C1 as stated fails: a record whose name is the empty string is listed and
  counted, where the sorted distinct non-empty names would be the empty list.
\<close>

theorem group_daily_empty_name_counterexample:
  "map ticker (fst (group_daily unnamed_df 0 [] [])) = [''AAPL'']
   \<and> map politicians (snd (group_daily unnamed_df 0 [] [])) = [[[]]]
   \<and> map people (snd (group_daily unnamed_df 0 [] [])) = [1]
   \<and> nonempty_politicians_of (fst (group_daily unnamed_df 0 [] [])) = []"
  by code_simp

text \<open>
  Claim C10. Every row of the \<open>group_daily\<close> result satisfies \<open>buys \<le> trades\<close>,
  \<open>sells \<le> trades\<close>, \<open>people \<le> trades\<close> and \<open>trades \<ge> 1\<close>, and some record
  of the filtered window carries the row's ticker.
\<close>

theorem group_daily_row_bounds:
  assumes "row \<in> set (snd (group_daily df since wl bl))"
  shows "buys row \<le> trades row \<and> sells row \<le> trades row \<and> people row \<le> trades row
     \<and> 1 \<le> trades row
     \<and> (\<exists>r \<in> set (fst (group_daily df since wl bl)). ticker r = g_ticker row)"
proof -
  let ?recs = "filter (\<lambda>r. ticker r = g_ticker row) (window df since wl bl)"
  have row: "row = daily_agg (g_ticker row, ?recs)"
    by (rule daily_rows_member(2)[OF assms])
  have ex: "\<exists>r \<in> set (window df since wl bl). ticker r = g_ticker row"
    by (rule daily_rows_member(1)[OF assms])
  then have ne: "?recs \<noteq> []" by (auto simp: filter_empty_conv)
  have t: "trades row = length ?recs"
    by (subst row) (simp add: daily_agg_def Let_def)
  have b: "buys row = length (filter is_buy ?recs)"
    by (subst row) (simp add: daily_agg_def Let_def sum_bool_count)
  have s: "sells row = length (filter is_sell ?recs)"
    by (subst row) (simp add: daily_agg_def Let_def sum_bool_count)
  have n: "people row = length (politicians_of ?recs)"
    by (subst row) (simp add: daily_agg_def Let_def)
  have "buys row \<le> trades row" unfolding b t by (rule length_filter_le)
  moreover have "sells row \<le> trades row" unfolding b s t by (rule length_filter_le)
  moreover have "people row \<le> trades row" unfolding n t by (rule length_politicians_of_le)
  moreover have "1 \<le> trades row" unfolding t using ne by (cases ?recs) simp_all
  moreover have "fst (group_daily df since wl bl) = window df since wl bl"
    by (simp add: group_daily_def Let_def)
  ultimately show ?thesis using ex by simp
qed

theorem group_daily_row_bounds_witness:
  "example_row \<in> set (snd (group_daily example_df 2 [] []))
   \<and> buys example_row \<le> trades example_row \<and> sells example_row \<le> trades example_row
   \<and> people example_row \<le> trades example_row \<and> 1 \<le> trades example_row"
proof -
  have h: "example_row \<in> set (snd (group_daily example_df 2 [] []))"
    by code_simp
  from group_daily_row_bounds[OF h] h show ?thesis by blast
qed

text \<open>
  Claim C4. In the \<open>group_daily\<close> result, for any adjacent pair of rows \<open>people\<close> does
  not increase, and where it is equal \<open>trades\<close> does not increase.
\<close>

theorem group_daily_sorted:
  assumes "Suc i < length (snd (group_daily df since wl bl))"
  shows "people (snd (group_daily df since wl bl) ! Suc i)
           \<le> people (snd (group_daily df since wl bl) ! i)
     \<and> (people (snd (group_daily df since wl bl) ! Suc i)
           = people (snd (group_daily df since wl bl) ! i)
        \<longrightarrow> trades (snd (group_daily df since wl bl) ! Suc i)
              \<le> trades (snd (group_daily df since wl bl) ! i))"
proof -
  have eq: "snd (group_daily df since wl bl) =
     sort_values_desc people trades (map daily_agg (groupby_ticker (window df since wl bl)))"
    by (simp add: group_daily_def Let_def)
  show ?thesis
    using assms unfolding eq by (rule sort_values_desc_nth)
qed

theorem group_daily_sorted_witness:
  "Suc 0 < length (snd (group_daily example_df 2 [] []))
   \<and> people (snd (group_daily example_df 2 [] []) ! Suc 0)
        \<le> people (snd (group_daily example_df 2 [] []) ! 0)"
proof -
  have h: "Suc 0 < length (snd (group_daily example_df 2 [] []))"
    by code_simp
  from group_daily_sorted[OF h] h show ?thesis by blast
qed

text \<open>
  Claim C5. Every row of the \<open>trend_30d\<close> result has \<open>total_trades = buys + sells\<close>, and
  for any adjacent pair of rows \<open>buys\<close> does not increase, and where it is equal
  \<open>total_trades\<close> does not increase.
\<close>

theorem trend_30d_total_sorted:
  "(\<forall>row \<in> set (snd (trend_30d df since wl bl)). total_trades row = t_buys row + t_sells row)
   \<and> (\<forall>i. Suc i < length (snd (trend_30d df since wl bl)) \<longrightarrow>
         t_buys (snd (trend_30d df since wl bl) ! Suc i)
           \<le> t_buys (snd (trend_30d df since wl bl) ! i)
       \<and> (t_buys (snd (trend_30d df since wl bl) ! Suc i)
           = t_buys (snd (trend_30d df since wl bl) ! i)
          \<longrightarrow> total_trades (snd (trend_30d df since wl bl) ! Suc i)
                \<le> total_trades (snd (trend_30d df since wl bl) ! i)))"
proof -
  have eq: "snd (trend_30d df since wl bl) =
     sort_values_desc t_buys total_trades (map trend_agg (groupby_ticker (window df since wl bl)))"
    by (simp add: trend_30d_def Let_def)
  have "\<forall>row \<in> set (snd (trend_30d df since wl bl)). total_trades row = t_buys row + t_sells row"
    unfolding eq set_sort_values_desc by (auto simp: trend_agg_def Let_def)
  moreover have "\<forall>i. Suc i < length (snd (trend_30d df since wl bl)) \<longrightarrow>
         t_buys (snd (trend_30d df since wl bl) ! Suc i)
           \<le> t_buys (snd (trend_30d df since wl bl) ! i)
       \<and> (t_buys (snd (trend_30d df since wl bl) ! Suc i)
           = t_buys (snd (trend_30d df since wl bl) ! i)
          \<longrightarrow> total_trades (snd (trend_30d df since wl bl) ! Suc i)
                \<le> total_trades (snd (trend_30d df since wl bl) ! i))"
    unfolding eq using sort_values_desc_nth by blast
  ultimately show ?thesis by blast
qed

theorem trend_30d_total_sorted_witness:
  "Suc 0 < length (snd (trend_30d example_df 2 [] []))
   \<and> snd (trend_30d example_df 2 [] []) ! 0 \<in> set (snd (trend_30d example_df 2 [] []))
   \<and> total_trades (snd (trend_30d example_df 2 [] []) ! 0)
       = t_buys (snd (trend_30d example_df 2 [] []) ! 0)
         + t_sells (snd (trend_30d example_df 2 [] []) ! 0)
   \<and> t_buys (snd (trend_30d example_df 2 [] []) ! Suc 0)
        \<le> t_buys (snd (trend_30d example_df 2 [] []) ! 0)"
proof -
  have h: "Suc 0 < length (snd (trend_30d example_df 2 [] []))"
    by code_simp
  then have "0 < length (snd (trend_30d example_df 2 [] []))"
    by linarith
  then have m: "snd (trend_30d example_df 2 [] []) ! 0 \<in> set (snd (trend_30d example_df 2 [] []))"
    by (rule nth_mem)
  from trend_30d_total_sorted[of example_df 2 "[]" "[]"] h m show ?thesis by blast
qed

end
